theory Spec2Isabelle
  imports Main "HOL-Library.Multiset"
begin

section \<open>The CUDA device manager of vtkCudaDeviceManager.cxx\<close>

text \<open>
  The manager keeps three containers and a lazily allocated mutex:
  \<^item> \<open>ObjectToDeviceMap\<close>, a \<open>std::multimap<vtkCUDAObject*, int>\<close> (OwnerDevice);
  \<^item> \<open>StreamToDeviceMap\<close>, a \<open>std::map<cudaStream_t*, int>\<close> (StreamDevice);
  \<^item> \<open>StreamToObjectMap\<close>, a \<open>std::multimap<cudaStream_t*, vtkCUDAObject*>\<close>
    (StreamOwner);
  \<^item> \<open>regularLock\<close>, a pointer to a \<open>vtkMutexLock\<close>.

  Pointers are opaque addresses (\<open>nat\<close>, with \<open>0\<close> the null pointer) and device
  indices are C \<open>int\<close>s, small enough that \<open>int\<close> models them. Each container is the
  list of its entries in iteration order (ascending keys; equal keys of a multimap in
  insertion order).

  The CUDA runtime is an external library. Of its state the model keeps the active device
  of the calling thread, the answer of \<open>cudaGetDeviceCount\<close>, and the log of the calls
  that act on a stream or a device; \<open>cudaSetDevice\<close> switches the active device. What
  \<open>cudaGetLastError\<close> reports is an argument of the two functions that read it.

  The embedding is sequential: one thread calls the manager. \<open>regularLock\<close> is a null
  pointer until the first \<open>GetDevice\<close> and a dangling one after \<open>UnRegister\<close> or
  \<open>Delete\<close>; \<open>Lock\<close> through such a pointer has no defined behaviour and is reported
  as \<open>LockFault\<close>. A \<open>vtkMutexLock\<close> is taken as the non-recursive mutex it is in VTK's
  pthread build: \<open>Lock\<close> by the thread that holds it never returns, which is reported
  as \<open>Deadlock\<close>. After either, the call is over.
\<close>

subsection \<open>Data\<close>

type_synonym object = nat
type_synonym stream = nat

text \<open>
  \<open>regularLock\<close>: null, a lock that nobody holds, a lock that the calling thread holds,
  or a pointer to a lock that has been deleted.
\<close>

datatype lock = LockNull | LockLive | LockHeld | LockFreed

datatype cuda_call =
    StreamCreate stream int
  | StreamSynchronize stream int
  | StreamDestroy stream
  | DeviceReset int

datatype error =
    InvalidDevice
  | NotFound
  | StreamDeviceMismatch
  | DeviceFault
  | LockFault
  | Deadlock

record manager =
  ObjectToDeviceMap :: "(object \<times> int) list"
  StreamToDeviceMap :: "(stream \<times> int) list"
  StreamToObjectMap :: "(stream \<times> object) list"
  regularLock :: lock
  deviceCount :: "int option"
  activeDevice :: int
  cudaLog :: "cuda_call list"

text \<open>The constructor: empty containers, no lock.\<close>

definition vtkCUDADeviceManager :: "int option \<Rightarrow> int \<Rightarrow> manager" where
  "vtkCUDADeviceManager n dev =
     \<lparr>ObjectToDeviceMap = [], StreamToDeviceMap = [], StreamToObjectMap = [],
      regularLock = LockNull, deviceCount = n, activeDevice = dev, cudaLog = []\<rparr>"

subsection \<open>The containers\<close>

text \<open>\<open>std::multimap::insert\<close>: after the last entry whose key is not greater.\<close>

fun mm_insert :: "nat \<Rightarrow> 'v \<Rightarrow> (nat \<times> 'v) list \<Rightarrow> (nat \<times> 'v) list" where
  "mm_insert k v [] = [(k, v)]"
| "mm_insert k v (e # es) =
     (if k < fst e then (k, v) # e # es else e # mm_insert k v es)"

text \<open>\<open>erase(iterator)\<close>, the iterator given as a position.\<close>

definition erase_at :: "nat \<Rightarrow> 'a list \<Rightarrow> 'a list" where
  "erase_at i es = take i es @ drop (Suc i) es"

text \<open>\<open>std::multimap::count\<close> and \<open>std::map::count\<close>.\<close>

definition mm_count :: "nat \<Rightarrow> (nat \<times> 'v) list \<Rightarrow> nat" where
  "mm_count k es = length (filter (\<lambda>e. fst e = k) es)"

definition map_count :: "nat \<Rightarrow> (nat \<times> 'v) list \<Rightarrow> nat" where
  "map_count k m = (case map_of m k of None \<Rightarrow> 0 | Some v \<Rightarrow> 1)"

text \<open>
  \<open>std::map::insert\<close> keeps an entry that is already there, and puts a new key at its
  place in the order.
\<close>

definition map_insert :: "nat \<Rightarrow> 'v \<Rightarrow> (nat \<times> 'v) list \<Rightarrow> (nat \<times> 'v) list" where
  "map_insert k v m = (case map_of m k of Some w \<Rightarrow> m | None \<Rightarrow> mm_insert k v m)"

text \<open>\<open>std::map::erase(key)\<close>.\<close>

definition map_erase :: "nat \<Rightarrow> (nat \<times> 'v) list \<Rightarrow> (nat \<times> 'v) list" where
  "map_erase k m = filter (\<lambda>e. fst e \<noteq> k) m"

text \<open>
  \<open>std::map::operator[]\<close> on \<open>StreamToDeviceMap\<close>: the value of the key, and the map,
  which gains the entry \<open>(k, 0)\<close> when the key was absent.
\<close>

definition map_index :: "nat \<Rightarrow> (nat \<times> int) list \<Rightarrow> int \<times> (nat \<times> int) list" where
  "map_index k m =
     (case map_of m k of
        Some v \<Rightarrow> (v, m)
      | None \<Rightarrow> (0, map_insert k 0 m))"

text \<open>\<open>std::set<int>::insert\<close>, the set as its ascending list.\<close>

fun set_insert :: "int \<Rightarrow> int list \<Rightarrow> int list" where
  "set_insert d [] = [d]"
| "set_insert d (x # xs) =
     (if d = x then x # xs
      else if d < x then d # x # xs
      else x # set_insert d xs)"

subsection \<open>The lock\<close>

text \<open>
  \<open>regularLock->Lock()\<close> and \<open>regularLock->Unlock()\<close>. \<open>fatal\<close> tells the two results
  after which a call does not go on.
\<close>

definition Lock :: "manager \<Rightarrow> error option \<times> manager" where
  "Lock s =
     (case regularLock s of
        LockLive \<Rightarrow> (None, s\<lparr>regularLock := LockHeld\<rparr>)
      | LockHeld \<Rightarrow> (Some Deadlock, s)
      | LockNull \<Rightarrow> (Some LockFault, s)
      | LockFreed \<Rightarrow> (Some LockFault, s))"

definition Unlock :: "manager \<Rightarrow> manager" where
  "Unlock s = (if regularLock s = LockHeld then s\<lparr>regularLock := LockLive\<rparr> else s)"

definition fatal :: "error option \<Rightarrow> bool" where
  "fatal r = (r = Some Deadlock \<or> r = Some LockFault)"

subsection \<open>GetNumberOfDevices, GetDevice\<close>

definition GetNumberOfDevices :: "manager \<Rightarrow> int" where
  "GetNumberOfDevices s = (case deviceCount s of None \<Rightarrow> - 1 | Some n \<Rightarrow> n)"

definition GetDevice :: "object \<Rightarrow> int \<Rightarrow> manager \<Rightarrow> error option \<times> manager" where
  "GetDevice caller device s =
     (if device < 0 \<or> device \<ge> GetNumberOfDevices s then (Some InvalidDevice, s)
      else
        let s1 = (if ObjectToDeviceMap s = [] then s\<lparr>regularLock := LockLive\<rparr> else s)
        in case Lock s1 of
             (Some e, s2) \<Rightarrow> (Some e, s2)
           | (None, s2) \<Rightarrow>
               (None, Unlock (s2\<lparr>ObjectToDeviceMap :=
                                mm_insert caller device (ObjectToDeviceMap s2)\<rparr>)))"

subsection \<open>ReturnStream\<close>

text \<open>
  The search loop of \<open>ReturnStream\<close>. The test
  \<open>it->first == stream && it->second == caller && StreamToDeviceMap[it->first] == device\<close>
  reads the device map with \<open>operator[]\<close> only on an entry of the pair, and the loop
  leaves at the first entry that passes. The result is the position found, if any, and
  the device map after the reads.
\<close>

fun ReturnStream_find ::
  "object \<Rightarrow> stream \<Rightarrow> int \<Rightarrow> (stream \<times> object) list \<Rightarrow> nat \<Rightarrow> (stream \<times> int) list
   \<Rightarrow> nat option \<times> (stream \<times> int) list" where
  "ReturnStream_find caller stream device [] i sd = (None, sd)"
| "ReturnStream_find caller stream device (e # es) i sd =
     (if fst e = stream \<and> snd e = caller
      then (let (v, sd') = map_index (fst e) sd
            in if v = device then (Some i, sd')
               else ReturnStream_find caller stream device es (Suc i) sd')
      else ReturnStream_find caller stream device es (Suc i) sd)"

definition ReturnStream ::
  "object \<Rightarrow> stream \<Rightarrow> int \<Rightarrow> manager \<Rightarrow> error option \<times> manager" where
  "ReturnStream caller stream device s =
     (case Lock s of
        (Some e, s0) \<Rightarrow> (Some e, s0)
      | (None, s0) \<Rightarrow>
          (case ReturnStream_find caller stream device (StreamToObjectMap s0) 0
                  (StreamToDeviceMap s0) of
             (None, sd) \<Rightarrow> (Some NotFound, Unlock (s0\<lparr>StreamToDeviceMap := sd\<rparr>))
           | (Some i, sd) \<Rightarrow>
               let so = erase_at i (StreamToObjectMap s0)
               in (None, Unlock (s0\<lparr>StreamToObjectMap := so,
                           StreamToDeviceMap :=
                             (if mm_count stream so = 0 then map_erase stream sd else sd)\<rparr>))))"

subsection \<open>ReturnDevice\<close>

text \<open>
  The first loop of \<open>ReturnDevice\<close>: \<open>found\<close>, \<open>emptyDevice\<close> and the position
  \<open>eraseIt\<close> of the last entry equal to the pair (the start of the map when there is
  none).
\<close>

fun ReturnDevice_scan ::
  "object \<Rightarrow> int \<Rightarrow> (object \<times> int) list \<Rightarrow> nat \<Rightarrow> bool \<times> bool \<times> nat \<Rightarrow> bool \<times> bool \<times> nat" where
  "ReturnDevice_scan caller device [] i acc = acc"
| "ReturnDevice_scan caller device (e # es) i (found, emptyDevice, eraseIt) =
     (if fst e = caller \<and> snd e = device
      then ReturnDevice_scan caller device es (Suc i) (True, emptyDevice, i)
      else if snd e = device
      then ReturnDevice_scan caller device es (Suc i) (found, False, eraseIt)
      else ReturnDevice_scan caller device es (Suc i) (found, emptyDevice, eraseIt))"

text \<open>
  The second loop: it reads \<open>StreamToDeviceMap[it2->first]\<close> for every entry of
  \<open>StreamToObjectMap\<close> and its body is empty, so \<open>streamsToReturn\<close> stays empty and only
  the reads act on the device map.
\<close>

fun ReturnDevice_streams ::
  "int \<Rightarrow> (stream \<times> object) list \<Rightarrow> stream list \<times> (stream \<times> int) list
   \<Rightarrow> stream list \<times> (stream \<times> int) list" where
  "ReturnDevice_streams device [] acc = acc"
| "ReturnDevice_streams device (e # es) (streamsToReturn, sd) =
     (let (v, sd') = map_index (fst e) sd
      in if v = device then ReturnDevice_streams device es (streamsToReturn, sd')
         else ReturnDevice_streams device es (streamsToReturn, sd'))"

text \<open>
  The third loop: \<open>ReturnStream\<close> for every collected stream, its result dropped. The
  call is made with the lock held.
\<close>

fun ReturnDevice_return ::
  "object \<Rightarrow> int \<Rightarrow> stream list \<Rightarrow> manager \<Rightarrow> error option \<times> manager" where
  "ReturnDevice_return caller device [] s = (None, s)"
| "ReturnDevice_return caller device (st # sts) s =
     (case ReturnStream caller st device s of
        (r, s') \<Rightarrow> if fatal r then (r, s') else ReturnDevice_return caller device sts s')"

text \<open>
  \<open>cudaGetDevice; if (device != oldDevice) cudaSetDevice(device); cudaDeviceReset();
  if (device != oldDevice) cudaSetDevice(oldDevice)\<close>: the reset acts on the device that
  is active when it is called, and the active device is the old one afterwards.
\<close>

definition resetDevice :: "int \<Rightarrow> manager \<Rightarrow> manager" where
  "resetDevice device s =
     (let oldDevice = activeDevice s;
          s1 = (if device \<noteq> oldDevice then s\<lparr>activeDevice := device\<rparr> else s);
          s2 = s1\<lparr>cudaLog := cudaLog s1 @ [DeviceReset (activeDevice s1)]\<rparr>
      in if device \<noteq> oldDevice then s2\<lparr>activeDevice := oldDevice\<rparr> else s2)"

definition ReturnDevice :: "object \<Rightarrow> int \<Rightarrow> manager \<Rightarrow> error option \<times> manager" where
  "ReturnDevice caller device s =
     (case Lock s of
        (Some e, s0) \<Rightarrow> (Some e, s0)
      | (None, s0) \<Rightarrow>
        (case ReturnDevice_scan caller device (ObjectToDeviceMap s0) 0 (False, True, 0) of
           (found, emptyDevice, eraseIt) \<Rightarrow>
             if found then
               (case ReturnDevice_streams device (StreamToObjectMap s0)
                       ([], StreamToDeviceMap s0) of
                  (streamsToReturn, sd) \<Rightarrow>
                    (case ReturnDevice_return caller device streamsToReturn
                            (s0\<lparr>StreamToDeviceMap := sd\<rparr>) of
                       (Some e, s1) \<Rightarrow> (Some e, s1)
                     | (None, s1) \<Rightarrow>
                         let s2 = s1\<lparr>ObjectToDeviceMap :=
                                     erase_at eraseIt (ObjectToDeviceMap s1)\<rparr>;
                             s3 = (if emptyDevice then resetDevice device s2 else s2);
                             s4 = Unlock s3
                         in (None, if ObjectToDeviceMap s4 = []
                                   then s4\<lparr>regularLock := LockFreed\<rparr> else s4)))
             else (Some NotFound, Unlock s0)))"

subsection \<open>GetStream\<close>

text \<open>
  \<open>GetStream\<close> takes the stream through a pointer and may store a new one there; the
  model returns it. \<open>fresh\<close> is the address that \<open>new cudaStream_t()\<close> returns when the
  caller passed a null stream.
\<close>

definition GetStream ::
  "object \<Rightarrow> stream \<Rightarrow> int \<Rightarrow> stream \<Rightarrow> manager \<Rightarrow> error option \<times> stream \<times> manager" where
  "GetStream caller stream device fresh s =
     (if device < 0 \<or> device \<ge> GetNumberOfDevices s then (Some InvalidDevice, stream, s)
      else
        (case Lock s of
           (Some e, s0) \<Rightarrow> (Some e, stream, s0)
         | (None, s0) \<Rightarrow>
             if stream \<noteq> 0 \<and> map_count stream (StreamToDeviceMap s0) = 1
                \<and> fst (map_index stream (StreamToDeviceMap s0)) \<noteq> device
             then (Some StreamDeviceMismatch, stream, Unlock s0)
             else if (stream, caller) \<in> set (StreamToObjectMap s0)
             then (None, stream, Unlock s0)
             else
               let s1 = s0\<lparr>activeDevice := device\<rparr>;
                   (stream', s2) =
                     (if stream = 0
                      then (fresh, s1\<lparr>cudaLog := cudaLog s1 @ [StreamCreate fresh device]\<rparr>)
                      else (stream, s1))
               in (None, stream',
                   Unlock (s2\<lparr>StreamToDeviceMap :=
                                map_insert stream' device (StreamToDeviceMap s2),
                              StreamToObjectMap :=
                                mm_insert stream' caller (StreamToObjectMap s2)\<rparr>))))"

subsection \<open>SynchronizeStream, ReserveGPU\<close>

text \<open>
  \<open>lastError\<close> is what \<open>cudaGetLastError\<close> returns; \<open>0\<close> is \<open>cudaSuccess\<close>. Both
  functions unlock before they call CUDA.
\<close>

definition SynchronizeStream :: "stream \<Rightarrow> nat \<Rightarrow> manager \<Rightarrow> error option \<times> manager" where
  "SynchronizeStream stream lastError s =
     (case Lock s of
        (Some e, s0) \<Rightarrow> (Some e, s0)
      | (None, s0) \<Rightarrow>
          if map_count stream (StreamToDeviceMap s0) \<noteq> 1 then (Some NotFound, Unlock s0)
          else
            let device = fst (map_index stream (StreamToDeviceMap s0));
                s1 = Unlock s0;
                oldDevice = activeDevice s1;
                s2 = s1\<lparr>activeDevice := device\<rparr>;
                s3 = s2\<lparr>cudaLog := cudaLog s2 @ [StreamSynchronize stream (activeDevice s2)]\<rparr>;
                s4 = s3\<lparr>activeDevice := oldDevice\<rparr>
            in (if lastError \<noteq> 0 then Some DeviceFault else None, s4))"

definition ReserveGPU :: "stream \<Rightarrow> nat \<Rightarrow> manager \<Rightarrow> error option \<times> manager" where
  "ReserveGPU stream lastError s =
     (case Lock s of
        (Some e, s0) \<Rightarrow> (Some e, s0)
      | (None, s0) \<Rightarrow>
          if map_count stream (StreamToDeviceMap s0) \<noteq> 1 then (Some NotFound, Unlock s0)
          else
            let device = fst (map_index stream (StreamToDeviceMap s0));
                s1 = Unlock s0
            in (if lastError \<noteq> 0 then Some DeviceFault else None,
                s1\<lparr>activeDevice := device\<rparr>))"

subsection \<open>DestroyEmptyStream\<close>

text \<open>
  \<open>DestroyEmptyStream\<close> returns nothing; the model returns the error it prints, if any.
  It drops the result of \<open>SynchronizeStream\<close>, which takes the lock, and takes no lock
  itself.
\<close>

definition DestroyEmptyStream :: "stream \<Rightarrow> nat \<Rightarrow> manager \<Rightarrow> error option \<times> manager" where
  "DestroyEmptyStream stream lastError s =
     (case SynchronizeStream stream lastError s of
        (r, s1) \<Rightarrow>
          if fatal r then (r, s1)
          else if stream \<in> fst ` set (StreamToDeviceMap s1)
          then (None, s1\<lparr>StreamToDeviceMap := map_erase stream (StreamToDeviceMap s1)\<rparr>)
          else (Some NotFound, s1))"

subsection \<open>The destructor\<close>

text \<open>
  First loop: every entry of \<open>StreamToDeviceMap\<close> is synchronised through
  \<open>SynchronizeStream\<close>, destroyed, and its device collected in the set \<open>devicesInUse\<close>.
  The destructor holds the lock while the loop runs, and \<open>SynchronizeStream\<close> locks it
  again.
\<close>

fun destroy_streams ::
  "(stream \<times> int) list \<Rightarrow> int list \<times> manager \<Rightarrow> error option \<times> int list \<times> manager" where
  "destroy_streams [] acc = (None, acc)"
| "destroy_streams (e # es) (devicesInUse, s) =
     (case SynchronizeStream (fst e) 0 s of
        (r, s1) \<Rightarrow>
          if fatal r then (r, devicesInUse, s1)
          else
            let s2 = s1\<lparr>cudaLog := cudaLog s1 @ [StreamDestroy (fst e)]\<rparr>
            in destroy_streams es (set_insert (snd e) devicesInUse, s2))"

text \<open>Second loop: \<open>cudaSetDevice(*it); cudaDeviceReset()\<close> for every collected device.\<close>

fun reset_devices :: "int list \<Rightarrow> manager \<Rightarrow> manager" where
  "reset_devices [] s = s"
| "reset_devices (d # ds) s =
     (let s1 = s\<lparr>activeDevice := d\<rparr>
      in reset_devices ds (s1\<lparr>cudaLog := cudaLog s1 @ [DeviceReset (activeDevice s1)]\<rparr>))"

text \<open>After the loops the maps are cleared, the lock is unlocked and deleted.\<close>

definition destructor :: "manager \<Rightarrow> error option \<times> manager" where
  "destructor s =
     (case Lock s of
        (Some e, s0) \<Rightarrow> (Some e, s0)
      | (None, s0) \<Rightarrow>
          (case destroy_streams (StreamToDeviceMap s0) ([], s0) of
             (Some e, devicesInUse, s1) \<Rightarrow> (Some e, s1)
           | (None, devicesInUse, s1) \<Rightarrow>
               let s2 = reset_devices devicesInUse s1;
                   s3 = s2\<lparr>StreamToDeviceMap := [], StreamToObjectMap := [],
                          ObjectToDeviceMap := []\<rparr>;
                   s4 = Unlock s3
               in (None, s4\<lparr>regularLock := LockFreed\<rparr>)))"

subsection \<open>Predicates used in the statements\<close>

text \<open>Some entry of \<open>ObjectToDeviceMap\<close> on device \<open>d\<close> belongs to another object than \<open>c\<close>.\<close>

definition others_hold :: "object \<Rightarrow> int \<Rightarrow> (object \<times> int) list \<Rightarrow> bool" where
  "others_hold c d es = (\<exists>x \<in> set es. snd x = d \<and> fst x \<noteq> c)"

text \<open>
  The lock can be taken by \<open>GetDevice\<close>: the map is empty (a lock is allocated) or the
  lock is there.
\<close>

definition lock_ok :: "manager \<Rightarrow> bool" where
  "lock_ok s = (ObjectToDeviceMap s = [] \<or> regularLock s = LockLive)"


text \<open>
  Between two calls the lock is there, and not held, exactly while \<open>ObjectToDeviceMap\<close>
  has an entry.
\<close>

definition lock_inv :: "manager \<Rightarrow> bool" where
  "lock_inv s =
     ((regularLock s = LockLive) = (ObjectToDeviceMap s \<noteq> []) \<and> regularLock s \<noteq> LockHeld)"

text \<open>
  The states of a manager: the constructed one, and the state after a call of one of
  the operations that clients call, in a state of the manager.
\<close>

inductive reachable :: "manager \<Rightarrow> bool" where
  constructed: "reachable (vtkCUDADeviceManager n dev)"
| after_GetDevice: "reachable s \<Longrightarrow> reachable (snd (GetDevice caller device s))"
| after_ReturnDevice: "reachable s \<Longrightarrow> reachable (snd (ReturnDevice caller device s))"
| after_GetStream:
    "reachable s \<Longrightarrow> reachable (snd (snd (GetStream caller stream device fresh s)))"
| after_ReturnStream:
    "reachable s \<Longrightarrow> reachable (snd (ReturnStream caller stream device s))"
| after_SynchronizeStream:
    "reachable s \<Longrightarrow> reachable (snd (SynchronizeStream stream lastError s))"
| after_ReserveGPU: "reachable s \<Longrightarrow> reachable (snd (ReserveGPU stream lastError s))"

subsection \<open>Three states of a run\<close>

text \<open>
  On a machine with two devices, object 1 acquires device 0 and then a new stream on it,
  which \<open>new\<close> puts at address 5: \<open>one_stream\<close> is the state after the two calls.
  \<open>leaked\<close> is the state after object 1 has returned the device. \<open>orphan\<close> is the state
  after \<open>DestroyEmptyStream\<close> on the stream in \<open>one_stream\<close>, where object 1 still
  uses it.
\<close>

definition one_stream :: manager where
  "one_stream =
     \<lparr>ObjectToDeviceMap = [(1, 0)], StreamToDeviceMap = [(5, 0)],
      StreamToObjectMap = [(5, 1)], regularLock = LockLive, deviceCount = Some 2,
      activeDevice = 0, cudaLog = [StreamCreate 5 0]\<rparr>"

definition leaked :: manager where
  "leaked =
     \<lparr>ObjectToDeviceMap = [], StreamToDeviceMap = [(5, 0)],
      StreamToObjectMap = [(5, 1)], regularLock = LockFreed, deviceCount = Some 2,
      activeDevice = 0, cudaLog = [StreamCreate 5 0, DeviceReset 0]\<rparr>"

definition orphan :: manager where
  "orphan =
     \<lparr>ObjectToDeviceMap = [(1, 0)], StreamToDeviceMap = [],
      StreamToObjectMap = [(5, 1)], regularLock = LockLive, deviceCount = Some 2,
      activeDevice = 0, cudaLog = [StreamCreate 5 0, StreamSynchronize 5 0]\<rparr>"

section \<open>Facts about the containers\<close>

lemma set_mm_insert: "set (mm_insert k v es) = insert (k, v) (set es)"
  by (induction es) auto

lemma mset_mm_insert: "mset (mm_insert k v es) = add_mset (k, v) (mset es)"
  by (induction es) auto

lemma mm_insert_not_Nil: "mm_insert k v es \<noteq> []"
  by (cases es) auto

lemma map_of_mm_insert:
  "map_of m k = None \<Longrightarrow> map_of (mm_insert k v m) = (map_of m)(k \<mapsto> v)"
  by (induction m) (auto split: if_splits)

lemma map_of_map_insert:
  "map_of (map_insert k v m) = (case map_of m k of None \<Rightarrow> (map_of m)(k \<mapsto> v) | Some w \<Rightarrow> map_of m)"
  by (simp add: map_insert_def map_of_mm_insert split: option.splits)


lemma map_erase_absent: "map_of m k = None \<Longrightarrow> map_erase k m = m"
  by (induction m) (auto simp: map_erase_def split: if_splits)

lemma map_index_present: "map_of m k = Some v \<Longrightarrow> map_index k m = (v, m)"
  by (simp add: map_index_def)

lemma map_index_absent: "map_of m k = None \<Longrightarrow> map_index k m = (0, map_insert k 0 m)"
  by (simp add: map_index_def)

lemma map_count_eq: "(map_count k m = 1) = (map_of m k \<noteq> None)"
  by (simp add: map_count_def split: option.splits)

lemma mset_erase_at: "i < length es \<Longrightarrow> mset (erase_at i es) = mset es - {#es ! i#}"
proof -
  assume "i < length es"
  then have "es = take i es @ es ! i # drop (Suc i) es"
    by (rule id_take_nth_drop)
  then have "mset es = add_mset (es ! i) (mset (erase_at i es))"
    unfolding erase_at_def by (metis mset.simps(2) mset_append union_mset_add_mset_right)
  then show ?thesis by simp
qed

lemma scan_found:
  "fst (ReturnDevice_scan c d es i (f, e, p)) = (f \<or> (c, d) \<in> set es)"
  by (induction es arbitrary: i f e p) (auto simp: prod_eq_iff)

lemma scan_empty:
  "fst (snd (ReturnDevice_scan c d es i (f, e, p))) = (e \<and> (\<forall>x \<in> set es. snd x = d \<longrightarrow> fst x = c))"
  by (induction es arbitrary: i f e p) auto

lemma scan_pos_absent:
  "(c, d) \<notin> set es \<Longrightarrow> snd (snd (ReturnDevice_scan c d es i (f, e, p))) = p"
  by (induction es arbitrary: i f e p) (auto simp: prod_eq_iff)

lemma scan_pos:
  "(c, d) \<in> set es \<Longrightarrow>
     i \<le> snd (snd (ReturnDevice_scan c d es i (f, e, p)))
     \<and> snd (snd (ReturnDevice_scan c d es i (f, e, p))) < i + length es
     \<and> es ! (snd (snd (ReturnDevice_scan c d es i (f, e, p))) - i) = (c, d)"
proof (induction es arbitrary: i f e p)
  case Nil
  then show ?case by simp
next
  case (Cons x es)
  show ?case
  proof (cases "(c, d) \<in> set es")
    case True
    have step: "\<And>f' e' p'. Suc i \<le> snd (snd (ReturnDevice_scan c d es (Suc i) (f', e', p')))
        \<and> snd (snd (ReturnDevice_scan c d es (Suc i) (f', e', p'))) < Suc i + length es
        \<and> es ! (snd (snd (ReturnDevice_scan c d es (Suc i) (f', e', p'))) - Suc i) = (c, d)"
      using Cons.IH [OF True] by blast
    obtain f' e' p' where eq: "ReturnDevice_scan c d (x # es) i (f, e, p) = ReturnDevice_scan c d es (Suc i) (f', e', p')"
      by (cases "fst x = c \<and> snd x = d"; cases "snd x = d") auto
    let ?q = "snd (snd (ReturnDevice_scan c d es (Suc i) (f', e', p')))"
    from step [of f' e' p'] have a: "Suc i \<le> ?q" and b: "?q < Suc i + length es"
      and c: "es ! (?q - Suc i) = (c, d)" by auto
    from a have "?q - i = Suc (?q - Suc i)" by simp
    with a b c show ?thesis unfolding eq by simp
  next
    case False
    with Cons.prems have x: "x = (c, d)" by simp
    then have "ReturnDevice_scan c d (x # es) i (f, e, p) = ReturnDevice_scan c d es (Suc i) (True, e, i)"
      by simp
    with scan_pos_absent [OF False, of "Suc i" True e i] x show ?thesis by simp
  qed
qed

lemma streams_fst: "fst (ReturnDevice_streams d es (sts, sd)) = sts"
  by (induction es arbitrary: sd) (auto split: prod.splits)




lemma map_count_None: "map_of m k = None \<Longrightarrow> map_count k m = 0"
  by (simp add: map_count_def)



section \<open>Facts about the operations\<close>

lemma Lock_live: "regularLock s = LockLive \<Longrightarrow> Lock s = (None, s\<lparr>regularLock := LockHeld\<rparr>)"
  by (simp add: Lock_def)

lemma Lock_not_live:
  "regularLock s \<noteq> LockLive \<Longrightarrow>
     Lock s = (Some (if regularLock s = LockHeld then Deadlock else LockFault), s)"
  by (cases "regularLock s") (simp_all add: Lock_def)

lemma live_again: "regularLock s = LockLive \<Longrightarrow> s\<lparr>regularLock := LockLive\<rparr> = s"
  by (cases s) simp

lemma Unlock_held: "regularLock s = LockHeld \<Longrightarrow> Unlock s = s\<lparr>regularLock := LockLive\<rparr>"
  by (simp add: Unlock_def)

lemma resetDevice_simps:
  "cudaLog (resetDevice d s) = cudaLog s @ [DeviceReset d]"
  "activeDevice (resetDevice d s) = activeDevice s"
  "ObjectToDeviceMap (resetDevice d s) = ObjectToDeviceMap s"
  "StreamToDeviceMap (resetDevice d s) = StreamToDeviceMap s"
  "StreamToObjectMap (resetDevice d s) = StreamToObjectMap s"
  "regularLock (resetDevice d s) = regularLock s"
  "deviceCount (resetDevice d s) = deviceCount s"
  by (simp_all add: resetDevice_def Let_def)

lemma ReturnDevice_not_live:
  "regularLock s \<noteq> LockLive \<Longrightarrow>
     ReturnDevice c d s = (Some (if regularLock s = LockHeld then Deadlock else LockFault), s)"
  by (simp add: ReturnDevice_def Lock_not_live)

lemma ReturnDevice_NotFound:
  assumes "regularLock s = LockLive" and "(c, d) \<notin> set (ObjectToDeviceMap s)"
  shows "ReturnDevice c d s = (Some NotFound, s)"
proof -
  obtain f e p where sc: "ReturnDevice_scan c d (ObjectToDeviceMap s) 0 (False, True, 0) = (f, e, p)"
    by (metis prod_cases3)
  from scan_found [of c d "ObjectToDeviceMap s" 0 False True 0] sc assms(2) have "\<not> f" by simp
  with assms(1) sc show ?thesis
    by (simp add: ReturnDevice_def Lock_live Unlock_def live_again)
qed

lemma ReturnDevice_success:
  assumes lk: "regularLock s = LockLive" and mem: "(c, d) \<in> set (ObjectToDeviceMap s)"
  shows "\<exists>s'. ReturnDevice c d s = (None, s')
     \<and> mset (ObjectToDeviceMap s') = mset (ObjectToDeviceMap s) - {#(c, d)#}
     \<and> StreamToObjectMap s' = StreamToObjectMap s
     \<and> StreamToDeviceMap s' =
         snd (ReturnDevice_streams d (StreamToObjectMap s) ([], StreamToDeviceMap s))
     \<and> cudaLog s' = cudaLog s @ (if others_hold c d (ObjectToDeviceMap s) then [] else [DeviceReset d])
     \<and> activeDevice s' = activeDevice s
     \<and> deviceCount s' = deviceCount s
     \<and> regularLock s' = (if ObjectToDeviceMap s' = [] then LockFreed else LockLive)"
proof -
  let ?es = "ObjectToDeviceMap s"
  obtain f e p where sc: "ReturnDevice_scan c d ?es 0 (False, True, 0) = (f, e, p)"
    by (metis prod_cases3)
  from scan_found [of c d ?es 0 False True 0] sc mem have f: "f" by simp
  from scan_empty [of c d ?es 0 False True 0] sc
  have e: "e = (\<not> others_hold c d ?es)" by (auto simp: others_hold_def)
  from scan_pos [OF mem, of 0 False True 0] sc
  have p: "p < length ?es" "?es ! p = (c, d)" by auto
  obtain sts sd where st: "ReturnDevice_streams d (StreamToObjectMap s) ([], StreamToDeviceMap s) = (sts, sd)"
    by (cases "ReturnDevice_streams d (StreamToObjectMap s) ([], StreamToDeviceMap s)")
  from streams_fst [of d "StreamToObjectMap s" "[]" "StreamToDeviceMap s"] st
  have sts: "sts = []" by simp
  have ms: "mset (erase_at p ?es) = mset ?es - {#(c, d)#}"
    using mset_erase_at [OF p(1)] p(2) by simp
  show ?thesis
    using lk sc f e st sts ms [symmetric]
    by (auto simp: ReturnDevice_def Lock_live Unlock_def Let_def resetDevice_simps)
qed

lemma GetDevice_success:
  assumes "0 \<le> d" "d < GetNumberOfDevices s"
    and "lock_ok s"
  shows "GetDevice c d s =
     (None, s\<lparr>regularLock := LockLive,
              ObjectToDeviceMap := mm_insert c d (ObjectToDeviceMap s)\<rparr>)"
  using assms by (auto simp: GetDevice_def Let_def lock_ok_def Lock_live Unlock_def)



lemma SynchronizeStream_not_live:
  "regularLock s \<noteq> LockLive \<Longrightarrow>
     SynchronizeStream stream e s =
       (Some (if regularLock s = LockHeld then Deadlock else LockFault), s)"
  by (simp add: SynchronizeStream_def Lock_not_live)

lemma one_stream_reached:
  "\<exists>s1. GetDevice 1 0 (vtkCUDADeviceManager (Some 2) 0) = (None, s1)
      \<and> GetStream 1 0 0 5 s1 = (None, 5, one_stream)"
  by (simp add: GetDevice_def GetStream_def vtkCUDADeviceManager_def one_stream_def
      GetNumberOfDevices_def map_count_def map_index_def map_insert_def Let_def
      Lock_def Unlock_def)

lemma leaked_reached: "ReturnDevice 1 0 one_stream = (None, leaked)"
  by (simp add: ReturnDevice_def one_stream_def leaked_def map_index_def erase_at_def
      resetDevice_def Let_def Lock_def Unlock_def)

lemma orphan_reached: "DestroyEmptyStream 5 0 one_stream = (None, orphan)"
  by (simp add: DestroyEmptyStream_def SynchronizeStream_def one_stream_def orphan_def
      map_count_def map_index_def map_erase_def Let_def Lock_def Unlock_def fatal_def)

lemma one_stream_simps:
  "regularLock one_stream = LockLive"
  "GetNumberOfDevices one_stream = 2"
  "StreamToObjectMap one_stream = [(5, 1)]"
  "StreamToDeviceMap one_stream = [(5, 0)]"
  "ObjectToDeviceMap one_stream = [(1, 0)]"
  "cudaLog one_stream = [StreamCreate 5 0]"
  "activeDevice one_stream = 0"
  by (simp_all add: one_stream_def GetNumberOfDevices_def)

lemma reachable_one_stream: "reachable one_stream"
proof -
  from one_stream_reached obtain s1
    where a: "GetDevice 1 0 (vtkCUDADeviceManager (Some 2) 0) = (None, s1)"
      and b: "GetStream 1 0 0 5 s1 = (None, 5, one_stream)" by blast
  have "reachable (snd (GetDevice 1 0 (vtkCUDADeviceManager (Some 2) 0)))"
    by (intro reachable.intros)
  with a have "reachable s1" by simp
  then have "reachable (snd (snd (GetStream 1 0 0 5 s1)))" by (rule after_GetStream)
  with b show ?thesis by simp
qed

lemma reachable_leaked: "reachable leaked"
proof -
  have "reachable (snd (ReturnDevice 1 0 one_stream))"
    by (rule after_ReturnDevice [OF reachable_one_stream])
  then show ?thesis unfolding leaked_reached by simp
qed




lemma fst_set_mm_insert: "fst ` set (mm_insert k v m) = insert k (fst ` set m)"
  by (simp add: set_mm_insert)





subsection \<open>What the operations preserve\<close>

text \<open>
  \<open>lock_ok\<close> holds in the constructed manager and after every operation. Invariant 1
  and \<open>lock_inv\<close> hold in the constructed manager and are preserved by every operation
  that clients call; \<open>DestroyEmptyStream\<close> preserves \<open>lock_ok\<close> and \<open>lock_inv\<close> only.
\<close>

lemma lock_ok_init: "lock_ok (vtkCUDADeviceManager n dev)"
  by (simp add: lock_ok_def vtkCUDADeviceManager_def)

lemma lock_ok_GetDevice: "lock_ok s \<Longrightarrow> lock_ok (snd (GetDevice c d s))"
  by (auto simp: GetDevice_def lock_ok_def Let_def Lock_live Unlock_def)

lemma lock_ok_ReturnDevice: "lock_ok s \<Longrightarrow> lock_ok (snd (ReturnDevice c d s))"
proof (cases "regularLock s = LockLive \<and> (c, d) \<in> set (ObjectToDeviceMap s)")
  case True
  with ReturnDevice_success [of s c d]
  obtain s' where "ReturnDevice c d s = (None, s')"
    and "regularLock s' = (if ObjectToDeviceMap s' = [] then LockFreed else LockLive)"
    by blast
  then show ?thesis
    by (cases "ObjectToDeviceMap s' = []") (simp_all add: lock_ok_def)
next
  case False
  assume ok: "lock_ok s"
  show ?thesis
  proof (cases "regularLock s = LockLive")
    case True
    with False ReturnDevice_NotFound [of s c d] ok show ?thesis by simp
  next
    case False
    with ok show ?thesis by (simp add: ReturnDevice_not_live)
  qed
qed

lemma GetStream_frame:
  "ObjectToDeviceMap (snd (snd (GetStream c st d fresh s))) = ObjectToDeviceMap s
   \<and> regularLock (snd (snd (GetStream c st d fresh s))) = regularLock s"
  by (cases "regularLock s")
    (auto simp: GetStream_def Lock_def Unlock_def Let_def split: prod.splits)

lemma ReturnStream_frame:
  "ObjectToDeviceMap (snd (ReturnStream c st d s)) = ObjectToDeviceMap s
   \<and> regularLock (snd (ReturnStream c st d s)) = regularLock s"
  by (cases "regularLock s")
    (auto simp: ReturnStream_def Lock_def Unlock_def Let_def split: prod.splits option.splits)

lemma SynchronizeStream_frame:
  "ObjectToDeviceMap (snd (SynchronizeStream st e s)) = ObjectToDeviceMap s
   \<and> regularLock (snd (SynchronizeStream st e s)) = regularLock s
   \<and> StreamToDeviceMap (snd (SynchronizeStream st e s)) = StreamToDeviceMap s
   \<and> StreamToObjectMap (snd (SynchronizeStream st e s)) = StreamToObjectMap s"
  by (cases "regularLock s")
    (auto simp: SynchronizeStream_def Lock_def Unlock_def Let_def)

lemma ReserveGPU_frame:
  "ObjectToDeviceMap (snd (ReserveGPU st e s)) = ObjectToDeviceMap s
   \<and> regularLock (snd (ReserveGPU st e s)) = regularLock s
   \<and> StreamToDeviceMap (snd (ReserveGPU st e s)) = StreamToDeviceMap s
   \<and> StreamToObjectMap (snd (ReserveGPU st e s)) = StreamToObjectMap s"
  by (cases "regularLock s")
    (auto simp: ReserveGPU_def Lock_def Unlock_def Let_def)

lemma DestroyEmptyStream_frame:
  "ObjectToDeviceMap (snd (DestroyEmptyStream st e s)) = ObjectToDeviceMap s
   \<and> regularLock (snd (DestroyEmptyStream st e s)) = regularLock s"
  using SynchronizeStream_frame [of st e s]
  by (auto simp: DestroyEmptyStream_def split: prod.splits)

lemma lock_ok_GetStream: "lock_ok s \<Longrightarrow> lock_ok (snd (snd (GetStream c st d fresh s)))"
  by (simp add: lock_ok_def GetStream_frame)

lemma lock_ok_ReturnStream: "lock_ok s \<Longrightarrow> lock_ok (snd (ReturnStream c st d s))"
  by (simp add: lock_ok_def ReturnStream_frame)

lemma lock_ok_SynchronizeStream: "lock_ok s \<Longrightarrow> lock_ok (snd (SynchronizeStream st e s))"
  by (simp add: lock_ok_def SynchronizeStream_frame)

lemma lock_ok_ReserveGPU: "lock_ok s \<Longrightarrow> lock_ok (snd (ReserveGPU st e s))"
  by (simp add: lock_ok_def ReserveGPU_frame)

lemma lock_ok_DestroyEmptyStream: "lock_ok s \<Longrightarrow> lock_ok (snd (DestroyEmptyStream st e s))"
  by (simp add: lock_ok_def DestroyEmptyStream_frame)

lemma lock_inv_init: "lock_inv (vtkCUDADeviceManager n dev)"
  by (simp add: lock_inv_def vtkCUDADeviceManager_def)

lemma lock_inv_GetDevice: "lock_inv s \<Longrightarrow> lock_inv (snd (GetDevice c d s))"
  by (auto simp: GetDevice_def lock_inv_def Let_def Lock_live Unlock_def mm_insert_not_Nil)

lemma lock_inv_ReturnDevice: "lock_inv s \<Longrightarrow> lock_inv (snd (ReturnDevice c d s))"
proof (cases "regularLock s = LockLive \<and> (c, d) \<in> set (ObjectToDeviceMap s)")
  case True
  with ReturnDevice_success [of s c d]
  obtain s' where "ReturnDevice c d s = (None, s')"
    and "regularLock s' = (if ObjectToDeviceMap s' = [] then LockFreed else LockLive)"
    by blast
  then show ?thesis
    by (cases "ObjectToDeviceMap s' = []") (simp_all add: lock_inv_def)
next
  case False
  assume ok: "lock_inv s"
  show ?thesis
  proof (cases "regularLock s = LockLive")
    case True
    with False ReturnDevice_NotFound [of s c d] ok show ?thesis by simp
  next
    case False
    with ok show ?thesis by (simp add: ReturnDevice_not_live)
  qed
qed

lemma lock_inv_GetStream: "lock_inv s \<Longrightarrow> lock_inv (snd (snd (GetStream c st d fresh s)))"
  by (simp add: lock_inv_def GetStream_frame)

lemma lock_inv_ReturnStream: "lock_inv s \<Longrightarrow> lock_inv (snd (ReturnStream c st d s))"
  by (simp add: lock_inv_def ReturnStream_frame)

lemma lock_inv_SynchronizeStream: "lock_inv s \<Longrightarrow> lock_inv (snd (SynchronizeStream st e s))"
  by (simp add: lock_inv_def SynchronizeStream_frame)

lemma lock_inv_ReserveGPU: "lock_inv s \<Longrightarrow> lock_inv (snd (ReserveGPU st e s))"
  by (simp add: lock_inv_def ReserveGPU_frame)

lemma lock_inv_DestroyEmptyStream: "lock_inv s \<Longrightarrow> lock_inv (snd (DestroyEmptyStream st e s))"
  by (simp add: lock_inv_def DestroyEmptyStream_frame)









lemma reachable_lock_inv: "reachable s \<Longrightarrow> lock_inv s"
  by (induction rule: reachable.induct)
    (simp_all add: lock_inv_init lock_inv_GetDevice lock_inv_ReturnDevice lock_inv_GetStream
      lock_inv_ReturnStream lock_inv_SynchronizeStream lock_inv_ReserveGPU)

lemma reachable_lock_ok: "reachable s \<Longrightarrow> lock_ok s"
  by (drule reachable_lock_inv) (auto simp: lock_inv_def lock_ok_def)

lemma reachable_lock_live:
  "reachable s \<Longrightarrow> (regularLock s = LockLive) = (ObjectToDeviceMap s \<noteq> [])"
  by (drule reachable_lock_inv) (simp add: lock_inv_def)


lemma destructor_no_stream:
  "regularLock s = LockLive \<Longrightarrow> StreamToDeviceMap s = [] \<Longrightarrow>
     destructor s =
       (None, s\<lparr>StreamToObjectMap := [], ObjectToDeviceMap := [], regularLock := LockFreed\<rparr>)"
  by (simp add: destructor_def Lock_live Unlock_def)

lemma destructor_some_stream:
  "regularLock s = LockLive \<Longrightarrow> StreamToDeviceMap s \<noteq> [] \<Longrightarrow>
     destructor s = (Some Deadlock, s\<lparr>regularLock := LockHeld\<rparr>)"
  by (cases "StreamToDeviceMap s")
    (simp_all add: destructor_def Lock_live SynchronizeStream_not_live fatal_def)

lemma destructor_not_live:
  "regularLock s \<noteq> LockLive \<Longrightarrow>
     destructor s = (Some (if regularLock s = LockHeld then Deadlock else LockFault), s)"
  by (simp add: destructor_def Lock_not_live)

section \<open>The claims\<close>

text \<open>
  C4. \<open>GetDevice\<close> (AcquireDevice) with a device index outside \<open>[0, deviceCount)\<close> fails
  with \<open>InvalidDevice\<close> and changes nothing. With an index inside it succeeds and adds
  one entry \<open>(caller, device)\<close> to \<open>ObjectToDeviceMap\<close>, one more than were there before,
  leaving the two stream maps as they were. The lock is the one \<open>GetDevice\<close> allocates
  for an empty map, or the one that is there.
\<close>

theorem GetDevice_spec:
  assumes "lock_ok s"
  shows "(device < 0 \<or> GetNumberOfDevices s \<le> device \<longrightarrow>
            GetDevice caller device s = (Some InvalidDevice, s))
       \<and> (0 \<le> device \<and> device < GetNumberOfDevices s \<longrightarrow>
            (\<exists>s'. GetDevice caller device s = (None, s')
               \<and> mset (ObjectToDeviceMap s') =
                   add_mset (caller, device) (mset (ObjectToDeviceMap s))
               \<and> count (mset (ObjectToDeviceMap s')) (caller, device) =
                   Suc (count (mset (ObjectToDeviceMap s)) (caller, device))
               \<and> StreamToDeviceMap s' = StreamToDeviceMap s
               \<and> StreamToObjectMap s' = StreamToObjectMap s))"
proof (intro conjI impI)
  assume "device < 0 \<or> GetNumberOfDevices s \<le> device"
  then show "GetDevice caller device s = (Some InvalidDevice, s)"
    by (auto simp: GetDevice_def)
next
  assume "0 \<le> device \<and> device < GetNumberOfDevices s"
  then have "GetDevice caller device s =
     (None, s\<lparr>regularLock := LockLive,
              ObjectToDeviceMap := mm_insert caller device (ObjectToDeviceMap s)\<rparr>)"
    using assms by (simp add: GetDevice_success)
  then show "\<exists>s'. GetDevice caller device s = (None, s')
               \<and> mset (ObjectToDeviceMap s') =
                   add_mset (caller, device) (mset (ObjectToDeviceMap s))
               \<and> count (mset (ObjectToDeviceMap s')) (caller, device) =
                   Suc (count (mset (ObjectToDeviceMap s)) (caller, device))
               \<and> StreamToDeviceMap s' = StreamToDeviceMap s
               \<and> StreamToObjectMap s' = StreamToObjectMap s"
    by (simp add: mset_mm_insert)
qed

theorem GetDevice_spec_witness:
  "lock_ok (vtkCUDADeviceManager (Some 2) 0)
   \<and> GetDevice 7 2 (vtkCUDADeviceManager (Some 2) 0)
       = (Some InvalidDevice, vtkCUDADeviceManager (Some 2) 0)
   \<and> GetDevice 7 (- 1) (vtkCUDADeviceManager (Some 2) 0)
       = (Some InvalidDevice, vtkCUDADeviceManager (Some 2) 0)
   \<and> fst (GetDevice 7 1 (vtkCUDADeviceManager (Some 2) 0)) = None
   \<and> ObjectToDeviceMap (snd (GetDevice 7 1 (vtkCUDADeviceManager (Some 2) 0))) = [(7, 1)]"
proof -
  have ok: "lock_ok (vtkCUDADeviceManager (Some 2) 0)"
    by (simp add: lock_ok_def vtkCUDADeviceManager_def)
  have n: "GetNumberOfDevices (vtkCUDADeviceManager (Some 2) 0) = 2"
    by (simp add: GetNumberOfDevices_def vtkCUDADeviceManager_def)
  from GetDevice_spec [OF ok, of 2 7] n
  have a: "GetDevice 7 2 (vtkCUDADeviceManager (Some 2) 0)
       = (Some InvalidDevice, vtkCUDADeviceManager (Some 2) 0)" by simp
  from GetDevice_spec [OF ok, of "- 1" 7] n
  have b: "GetDevice 7 (- 1) (vtkCUDADeviceManager (Some 2) 0)
       = (Some InvalidDevice, vtkCUDADeviceManager (Some 2) 0)" by simp
  from GetDevice_spec [OF ok, of 1 7] n
  obtain s' where c: "GetDevice 7 1 (vtkCUDADeviceManager (Some 2) 0) = (None, s')"
    and m: "mset (ObjectToDeviceMap s') =
       add_mset (7, 1) (mset (ObjectToDeviceMap (vtkCUDADeviceManager (Some 2) 0)))"
    by auto
  from m have "mset (ObjectToDeviceMap s') = {#(7, 1)#}"
    by (simp add: vtkCUDADeviceManager_def)
  then have "ObjectToDeviceMap s' = [(7, 1)]" by simp
  with ok a b c show ?thesis by simp
qed

text \<open>
  C3. On a valid device \<open>d\<close> that no object holds, two distinct objects \<open>A\<close> and \<open>B\<close>
  acquire \<open>d\<close> once each. Then \<open>ReturnDevice A d\<close> succeeds and resets nothing, and the
  following \<open>ReturnDevice B d\<close> succeeds and resets \<open>d\<close>: over the four calls the log of
  CUDA calls gains the single entry \<open>DeviceReset d\<close>, and \<open>ObjectToDeviceMap\<close> holds the
  entries it held at the start.
\<close>

theorem two_owners_release:
  assumes d: "0 \<le> d" "d < GetNumberOfDevices s"
    and AB: "A \<noteq> B"
    and ok: "lock_ok s"
    and free: "d \<notin> snd ` set (ObjectToDeviceMap s)"
  shows "\<exists>s1 s2 s3 s4.
           GetDevice A d s = (None, s1)
         \<and> GetDevice B d s1 = (None, s2)
         \<and> ReturnDevice A d s2 = (None, s3)
         \<and> cudaLog s3 = cudaLog s
         \<and> ReturnDevice B d s3 = (None, s4)
         \<and> cudaLog s4 = cudaLog s @ [DeviceReset d]
         \<and> mset (ObjectToDeviceMap s4) = mset (ObjectToDeviceMap s)"
proof -
  let ?s1 = "s\<lparr>regularLock := LockLive,
              ObjectToDeviceMap := mm_insert A d (ObjectToDeviceMap s)\<rparr>"
  let ?s2 = "?s1\<lparr>regularLock := LockLive,
              ObjectToDeviceMap := mm_insert B d (ObjectToDeviceMap ?s1)\<rparr>"
  have g1: "GetDevice A d s = (None, ?s1)"
    using d ok by (rule GetDevice_success)
  have "GetDevice B d ?s1 = (None, ?s2)"
    using d by (intro GetDevice_success) (simp_all add: GetNumberOfDevices_def lock_ok_def)
  then have g2: "GetDevice B d ?s1 = (None, ?s2)" .
  have set2: "set (ObjectToDeviceMap ?s2) = {(A, d), (B, d)} \<union> set (ObjectToDeviceMap s)"
    by (auto simp: set_mm_insert)
  have mset2: "mset (ObjectToDeviceMap ?s2) = {#(A, d), (B, d)#} + mset (ObjectToDeviceMap s)"
    by (simp add: mset_mm_insert)
  have oh2: "others_hold A d (ObjectToDeviceMap ?s2)"
    unfolding others_hold_def set2 using AB by auto
  from ReturnDevice_success [of ?s2 A d] set2
  obtain s3 where r3: "ReturnDevice A d ?s2 = (None, s3)"
    and m3: "mset (ObjectToDeviceMap s3) = mset (ObjectToDeviceMap ?s2) - {#(A, d)#}"
    and l3: "cudaLog s3 = cudaLog ?s2 @ (if others_hold A d (ObjectToDeviceMap ?s2) then [] else [DeviceReset d])"
    and k3: "regularLock s3 = (if ObjectToDeviceMap s3 = [] then LockFreed else LockLive)"
    by auto
  from m3 mset2 have m3': "mset (ObjectToDeviceMap s3) = add_mset (B, d) (mset (ObjectToDeviceMap s))"
    by simp
  then have set3: "set (ObjectToDeviceMap s3) = insert (B, d) (set (ObjectToDeviceMap s))"
    by (metis set_mset_add_mset_insert set_mset_mset)
  then have ne3: "ObjectToDeviceMap s3 \<noteq> []" by auto
  with k3 have lk3: "regularLock s3 = LockLive" by simp
  from l3 oh2 have log3: "cudaLog s3 = cudaLog s" by simp
  have oh3: "\<not> others_hold B d (ObjectToDeviceMap s3)"
    unfolding others_hold_def set3 using free by force
  from ReturnDevice_success [OF lk3, of B d] set3
  obtain s4 where r4: "ReturnDevice B d s3 = (None, s4)"
    and m4: "mset (ObjectToDeviceMap s4) = mset (ObjectToDeviceMap s3) - {#(B, d)#}"
    and l4: "cudaLog s4 = cudaLog s3 @ (if others_hold B d (ObjectToDeviceMap s3) then [] else [DeviceReset d])"
    by auto
  from l4 oh3 log3 have log4: "cudaLog s4 = cudaLog s @ [DeviceReset d]" by simp
  from m4 m3' have m4': "mset (ObjectToDeviceMap s4) = mset (ObjectToDeviceMap s)" by simp
  from g1 g2 r3 log3 r4 log4 m4' show ?thesis by blast
qed

theorem two_owners_release_witness:
  "(0::int) \<le> 0
   \<and> 0 < GetNumberOfDevices (vtkCUDADeviceManager (Some 2) 0)
   \<and> (1::nat) \<noteq> 2
   \<and> lock_ok (vtkCUDADeviceManager (Some 2) 0)
   \<and> 0 \<notin> snd ` set (ObjectToDeviceMap (vtkCUDADeviceManager (Some 2) 0))
   \<and> (\<exists>s1 s2 s3 s4.
           GetDevice 1 0 (vtkCUDADeviceManager (Some 2) 0) = (None, s1)
         \<and> GetDevice 2 0 s1 = (None, s2)
         \<and> ReturnDevice 1 0 s2 = (None, s3)
         \<and> cudaLog s3 = []
         \<and> ReturnDevice 2 0 s3 = (None, s4)
         \<and> cudaLog s4 = [DeviceReset 0]
         \<and> ObjectToDeviceMap s4 = [])"
proof -
  let ?s = "vtkCUDADeviceManager (Some 2) 0"
  have h: "(0::int) \<le> 0" "0 < GetNumberOfDevices ?s" "(1::nat) \<noteq> 2" "lock_ok ?s"
    "0 \<notin> snd ` set (ObjectToDeviceMap ?s)"
    by (simp_all add: GetNumberOfDevices_def vtkCUDADeviceManager_def lock_ok_def)
  have e: "cudaLog ?s = []" "ObjectToDeviceMap ?s = []"
    by (simp_all add: vtkCUDADeviceManager_def)
  from two_owners_release [OF h] show ?thesis
    unfolding e using h by simp
qed

text \<open>
  C1. \<open>ReturnDevice\<close> does not return the streams of the caller on the device: its loop
  over \<open>StreamToObjectMap\<close> has an empty body, so \<open>streamsToReturn\<close> is empty and
  \<open>ReturnStream\<close> is never called. Object 1 acquires device 0 and a new stream (address 5)
  on it, then returns the device: the call succeeds, and the stream's entries are still in
  \<open>StreamToObjectMap\<close> and \<open>StreamToDeviceMap\<close>.
\<close>

theorem ReturnDevice_keeps_streams:
  "GetDevice 1 0 (vtkCUDADeviceManager (Some 2) 0) =
     (None, \<lparr>ObjectToDeviceMap = [(1, 0)], StreamToDeviceMap = [], StreamToObjectMap = [],
             regularLock = LockLive, deviceCount = Some 2, activeDevice = 0, cudaLog = []\<rparr>)
   \<and> GetStream 1 0 0 5
       \<lparr>ObjectToDeviceMap = [(1, 0)], StreamToDeviceMap = [], StreamToObjectMap = [],
        regularLock = LockLive, deviceCount = Some 2, activeDevice = 0, cudaLog = []\<rparr> =
     (None, 5, \<lparr>ObjectToDeviceMap = [(1, 0)], StreamToDeviceMap = [(5, 0)],
                StreamToObjectMap = [(5, 1)], regularLock = LockLive, deviceCount = Some 2,
                activeDevice = 0, cudaLog = [StreamCreate 5 0]\<rparr>)
   \<and> ReturnDevice 1 0
       \<lparr>ObjectToDeviceMap = [(1, 0)], StreamToDeviceMap = [(5, 0)],
        StreamToObjectMap = [(5, 1)], regularLock = LockLive, deviceCount = Some 2,
        activeDevice = 0, cudaLog = [StreamCreate 5 0]\<rparr> =
     (None, \<lparr>ObjectToDeviceMap = [], StreamToDeviceMap = [(5, 0)],
             StreamToObjectMap = [(5, 1)], regularLock = LockFreed, deviceCount = Some 2,
             activeDevice = 0, cudaLog = [StreamCreate 5 0, DeviceReset 0]\<rparr>)"
  by (simp add: GetDevice_def GetStream_def ReturnDevice_def vtkCUDADeviceManager_def
      GetNumberOfDevices_def map_count_def map_index_def map_insert_def erase_at_def
      resetDevice_def Let_def Lock_def Unlock_def)

text \<open>
  C2. \<open>ReturnDevice\<close> resets the device while an entry for it remains. The scan clears
  \<open>emptyDevice\<close> only at an entry of the device that belongs to another object; a second
  entry of the caller itself is taken for the entry to erase. Object 1 acquires device 0
  twice and returns it once: one entry \<open>(1, 0)\<close> remains and the device is reset.
\<close>

theorem ReturnDevice_resets_held_device:
  "GetDevice 1 0 (vtkCUDADeviceManager (Some 2) 0) =
     (None, \<lparr>ObjectToDeviceMap = [(1, 0)], StreamToDeviceMap = [], StreamToObjectMap = [],
             regularLock = LockLive, deviceCount = Some 2, activeDevice = 0, cudaLog = []\<rparr>)
   \<and> GetDevice 1 0
       \<lparr>ObjectToDeviceMap = [(1, 0)], StreamToDeviceMap = [], StreamToObjectMap = [],
        regularLock = LockLive, deviceCount = Some 2, activeDevice = 0, cudaLog = []\<rparr> =
     (None, \<lparr>ObjectToDeviceMap = [(1, 0), (1, 0)], StreamToDeviceMap = [],
             StreamToObjectMap = [], regularLock = LockLive, deviceCount = Some 2,
             activeDevice = 0, cudaLog = []\<rparr>)
   \<and> ReturnDevice 1 0
       \<lparr>ObjectToDeviceMap = [(1, 0), (1, 0)], StreamToDeviceMap = [],
        StreamToObjectMap = [], regularLock = LockLive, deviceCount = Some 2,
        activeDevice = 0, cudaLog = []\<rparr> =
     (None, \<lparr>ObjectToDeviceMap = [(1, 0)], StreamToDeviceMap = [],
             StreamToObjectMap = [], regularLock = LockLive, deviceCount = Some 2,
             activeDevice = 0, cudaLog = [DeviceReset 0]\<rparr>)"
  by (simp add: GetDevice_def ReturnDevice_def vtkCUDADeviceManager_def
      GetNumberOfDevices_def erase_at_def resetDevice_def Let_def Lock_def Unlock_def)

text \<open>
  C5, as amended. The lock is there, the device index is in range, the pair
  \<open>(stream, caller)\<close> is in \<open>StreamToObjectMap\<close> and the stream is not bound to another
  device than the one asked for: \<open>GetStream\<close> succeeds, hands back the same stream and
  leaves the whole state as it was.
\<close>

theorem GetStream_again:
  assumes "regularLock s = LockLive"
    and "0 \<le> device" "device < GetNumberOfDevices s"
    and "(stream, caller) \<in> set (StreamToObjectMap s)"
    and "\<forall>d. map_of (StreamToDeviceMap s) stream = Some d \<longrightarrow> d = device"
  shows "GetStream caller stream device fresh s = (None, stream, s)"
proof (cases "map_of (StreamToDeviceMap s) stream")
  case None
  with assms(1-4) show ?thesis
    by (simp add: GetStream_def map_count_None Lock_live Unlock_def live_again)
next
  case (Some d)
  with assms(5) have "d = device" by simp
  with Some assms(1-4) show ?thesis
    by (simp add: GetStream_def map_index_present Lock_live Unlock_def live_again)
qed

theorem GetStream_again_witness:
  "regularLock one_stream = LockLive
   \<and> (5, 1) \<in> set (StreamToObjectMap one_stream)
   \<and> map_of (StreamToDeviceMap one_stream) 5 = Some 0
   \<and> GetStream 1 5 0 9 one_stream = (None, 5, one_stream)"
  using GetStream_again [of one_stream 0 5 1 9] by (simp add: one_stream_simps)

text \<open>
  C5 as stated fails in the state \<open>one_stream\<close>: the pair of stream 5 and object 1 is in
  \<open>StreamToObjectMap\<close>, and \<open>GetStream\<close> for the same pair on device 1 does not succeed;
  the stream is bound to device 0 and the call fails with \<open>StreamDeviceMismatch\<close>.
\<close>

theorem GetStream_again_counterexample:
  "(5, 1) \<in> set (StreamToObjectMap one_stream)
   \<and> 0 \<le> (1::int) \<and> 1 < GetNumberOfDevices one_stream
   \<and> GetStream 1 5 1 9 one_stream = (Some StreamDeviceMismatch, 5, one_stream)"
  by (simp add: GetStream_def one_stream_def GetNumberOfDevices_def map_count_def
      map_index_def Lock_def Unlock_def)













text \<open>
  C9. The destructor does not do what the claim says. It takes the lock and calls
  \<open>SynchronizeStream\<close> for the first entry of \<open>StreamToDeviceMap\<close>, which takes the lock
  again: in the state \<open>one_stream\<close> the call never returns, with the lock held, no
  stream synchronised or destroyed, no device reset and the three maps as they were.
  In the constructed manager and in the state \<open>leaked\<close> there is no lock to take.
\<close>

theorem destructor_stops:
  "destructor one_stream = (Some Deadlock, one_stream\<lparr>regularLock := LockHeld\<rparr>)
   \<and> destructor (vtkCUDADeviceManager (Some 2) 0) =
       (Some LockFault, vtkCUDADeviceManager (Some 2) 0)
   \<and> destructor leaked = (Some LockFault, leaked)"
  by (simp add: destructor_def SynchronizeStream_def one_stream_def leaked_def
      vtkCUDADeviceManager_def Lock_def fatal_def)

end
